theory Spec2Isabelle
  imports Main
begin

section \<open>The typed decoder of parquet/encodings/decoder.h\<close>

text \<open>
  The class template \<open>Decoder<DType>\<close> is the contract every concrete Parquet encoding
  implements.  It has three data members (\<open>descr_\<close>, \<open>encoding_\<close>, \<open>num_values_\<close>), a
  pure virtual \<open>SetData\<close>, a virtual \<open>Decode\<close> whose default throws, a virtual
  \<open>DecodeSpaced\<close> with a default built on \<open>Decode\<close>, and the two accessors
  \<open>values_left\<close> and \<open>encoding\<close>.

  Conventions of the embedding.
  \<^item> The value type \<open>T\<close> is the type variable \<open>'a\<close>; \<open>ColumnDescriptor\<close> and
    \<open>Encoding::type\<close> are declared in headers that are not part of the sources read
    here, so they are the type parameters \<open>'descr\<close> and \<open>'enc\<close>.
  \<^item> A member name ending in an underscore is not a legal constant name; the members
    are the record fields \<open>descr_fld\<close>, \<open>encoding_fld\<close>, \<open>num_values_fld\<close>.
  \<^item> \<open>int\<close> is 32 bits wide and \<open>int64_t\<close> 64 bits.  Values are mathematical
    integers and every arithmetic operation of the source whose result may leave the
    range is followed by the two's complement wrap-around, written out.  (The language
    leaves signed overflow undefined; the wrap-around is what the compiled code
    computes.  Wherever a theorem below speaks of the slots of a request, its
    hypotheses keep the values in range and the wrap-around is the identity.)
  \<^item> The output region \<open>T* buffer\<close> is the list of the slots the caller allocated.
    Reading or writing a slot outside it has no defined result; the model says so
    with the outcome \<open>Undefined\<close> instead of inventing a value.
  \<^item> A C++ exception leaves the writes made before it in place.  An outcome therefore
    carries the buffer and the decoder as they are when the call ends, whether it
    ends by \<open>return\<close> or by \<open>throw\<close>.
  \<^item> A virtual call is a call of a function passed as an argument: the default
    \<open>DecodeSpaced\<close> takes the \<open>Decode\<close> of the dynamic type as its first argument.
\<close>

subsection \<open>Machine integers\<close>

definition wrap_int32 :: "int \<Rightarrow> int" where
  "wrap_int32 x = (x + 2147483648) mod 4294967296 - 2147483648"

definition wrap_int64 :: "int \<Rightarrow> int" where
  "wrap_int64 x = (x + 9223372036854775808) mod 18446744073709551616 - 9223372036854775808"

definition INT_MAX :: int where
  "INT_MAX = 2147483647"

subsection \<open>Exceptions and outcomes\<close>

datatype error = ParquetException string

text \<open>The two messages the header throws (lines 50 and 62).\<close>

definition unsupported_operation :: error where
  "unsupported_operation = ParquetException ''Decoder does not implement this type.''"

definition decode_count_mismatch :: error where
  "decode_count_mismatch =
     ParquetException ''Number of values / definition_levels read did not match''"

datatype ('r, 's) outcome = Return 'r 's | Throw error 's | Undefined

subsection \<open>The class and its accessors\<close>

record ('descr, 'enc) Decoder =
  descr_fld :: 'descr
  encoding_fld :: 'enc
  num_values_fld :: int

text \<open>The protected constructor (lines 83-84).\<close>

definition Decoder :: "'descr \<Rightarrow> 'enc \<Rightarrow> ('descr, 'enc) Decoder" where
  "Decoder descr encoding =
     \<lparr>descr_fld = descr, encoding_fld = encoding, num_values_fld = 0\<rparr>"

text \<open>The accessors \<open>values_left\<close> (line 78) and \<open>encoding\<close> (line 80).\<close>

definition values_left :: "('descr, 'enc, 'more) Decoder_scheme \<Rightarrow> int" where
  "values_left d = num_values_fld d"

definition encoding :: "('descr, 'enc, 'more) Decoder_scheme \<Rightarrow> 'enc" where
  "encoding d = encoding_fld d"

subsection \<open>Decode, the default of the base class\<close>

text \<open>
  A \<open>Decode\<close> takes the decoder, the output region and \<open>max_values\<close>, and ends with
  the number of values decoded, the region and the decoder.  The one of the base
  class (lines 49-51) only throws.
\<close>

type_synonym ('a, 'd) decode_fn =
  "'d \<Rightarrow> 'a list \<Rightarrow> int \<Rightarrow> (int, 'a list \<times> 'd) outcome"

definition Decode :: "('a, 'd) decode_fn" where
  "Decode d buffer max_values = Throw unsupported_operation (buffer, d)"

subsection \<open>The validity bitmap\<close>

text \<open>
  Modelled from the spec: \<open>::arrow::BitUtil::GetBit\<close> is declared in
  \<open>arrow/util/bit-util.h\<close>, which is not among the sources.  The spec describes the
  validity bitmap reader as a bit-addressable read-only view over a packed bit sequence
  that answers whether a bit is set.  The bitmap is therefore the function from a bit
  index to the bit stored there, and \<open>GetBit\<close> reads it.
\<close>

type_synonym bitmap = "int \<Rightarrow> bool"

definition GetBit :: "bitmap \<Rightarrow> int \<Rightarrow> bool" where
  "GetBit bits i = bits i"

subsection \<open>DecodeSpaced\<close>

text \<open>
  The loop of lines 68-72, entered with the current \<open>i\<close>, \<open>values_to_move\<close> and buffer.
  \<open>i--\<close> is taken only when \<open>0 \<le> i\<close> and cannot leave the range of \<open>int\<close>.
  The result is \<open>None\<close> when a slot outside the buffer is read or written.
\<close>

function spacing_loop :: "bitmap \<Rightarrow> int \<Rightarrow> int \<Rightarrow> int \<Rightarrow> 'a list \<Rightarrow> 'a list option" where
  "spacing_loop valid_bits valid_bits_offset i values_to_move buffer =
     (if 0 \<le> i then
        (if GetBit valid_bits (wrap_int64 (valid_bits_offset + i)) then
           (let values_to_move' = wrap_int32 (values_to_move - 1) in
            if 0 \<le> values_to_move' \<and> values_to_move' < int (length buffer)
               \<and> i < int (length buffer)
            then spacing_loop valid_bits valid_bits_offset (i - 1) values_to_move'
                   (buffer[nat i := buffer ! nat values_to_move'])
            else None)
         else spacing_loop valid_bits valid_bits_offset (i - 1) values_to_move buffer)
      else Some buffer)"
  by pat_completeness auto
termination
  by (relation "measure (\<lambda>(valid_bits, valid_bits_offset, i, values_to_move, buffer). nat (i + 1))")
     auto

declare spacing_loop.simps [simp del]

text \<open>The default \<open>DecodeSpaced\<close> (lines 57-74).\<close>

definition DecodeSpaced ::
  "('a, 'd) decode_fn \<Rightarrow> 'd \<Rightarrow> 'a list \<Rightarrow> int \<Rightarrow> int \<Rightarrow> bitmap \<Rightarrow> int
     \<Rightarrow> (int, 'a list \<times> 'd) outcome" where
  "DecodeSpaced Decode_virtual d buffer num_values null_count valid_bits valid_bits_offset =
     (let values_to_read = wrap_int32 (num_values - null_count) in
      case Decode_virtual d buffer values_to_read of
        Undefined \<Rightarrow> Undefined
      | Throw e s \<Rightarrow> Throw e s
      | Return values_read (buffer', d') \<Rightarrow>
          if values_read \<noteq> values_to_read then Throw decode_count_mismatch (buffer', d')
          else
            (let values_to_move = values_read in
             case spacing_loop valid_bits valid_bits_offset (wrap_int32 (num_values - 1))
                    values_to_move buffer' of
               None \<Rightarrow> Undefined
             | Some buffer'' \<Rightarrow> Return num_values (buffer'', d')))"

subsection \<open>The moves of the loop\<close>

text \<open>
  The same loop, recording instead of performing each assignment
  \<open>buffer[i] = buffer[--values_to_move]\<close> as the pair (source index, destination index),
  in the order of execution.  \<open>apply_moves\<close> performs a recorded sequence on a buffer.
\<close>

function spacing_moves :: "bitmap \<Rightarrow> int \<Rightarrow> int \<Rightarrow> int \<Rightarrow> (int \<times> int) list" where
  "spacing_moves valid_bits valid_bits_offset i values_to_move =
     (if 0 \<le> i then
        (if GetBit valid_bits (wrap_int64 (valid_bits_offset + i)) then
           (let values_to_move' = wrap_int32 (values_to_move - 1) in
            (values_to_move', i) #
              spacing_moves valid_bits valid_bits_offset (i - 1) values_to_move')
         else spacing_moves valid_bits valid_bits_offset (i - 1) values_to_move)
      else [])"
  by pat_completeness auto
termination
  by (relation "measure (\<lambda>(valid_bits, valid_bits_offset, i, values_to_move). nat (i + 1))")
     auto

declare spacing_moves.simps [simp del]

fun apply_moves :: "(int \<times> int) list \<Rightarrow> 'a list \<Rightarrow> 'a list option" where
  "apply_moves [] buffer = Some buffer"
| "apply_moves ((src, dst) # ms) buffer =
     (if 0 \<le> src \<and> src < int (length buffer) \<and> 0 \<le> dst \<and> dst < int (length buffer)
      then apply_moves ms (buffer[nat dst := buffer ! nat src])
      else None)"

text \<open>
  The order the loop keeps between two of its moves, the earlier one first: the later
  move reads a slot that lies below both the slot the earlier move read and the slot
  it wrote.
\<close>

definition before_move :: "int \<times> int \<Rightarrow> int \<times> int \<Rightarrow> bool" where
  "before_move earlier later \<longleftrightarrow> fst later < fst earlier \<and> fst later < snd earlier"

subsection \<open>The null pattern seen from the caller\<close>

text \<open>
  Slot \<open>i\<close> of a request is non-null when the bit \<open>valid_bits_offset + i\<close> is set;
  \<open>valid_count\<close> counts the non-null slots among the first \<open>n\<close>, \<open>null_slots\<close> the
  null ones.
\<close>

definition slot_valid :: "bitmap \<Rightarrow> int \<Rightarrow> nat \<Rightarrow> bool" where
  "slot_valid valid_bits valid_bits_offset i =
     GetBit valid_bits (wrap_int64 (valid_bits_offset + int i))"

primrec valid_count :: "bitmap \<Rightarrow> int \<Rightarrow> nat \<Rightarrow> nat" where
  "valid_count valid_bits valid_bits_offset 0 = 0"
| "valid_count valid_bits valid_bits_offset (Suc n) =
     valid_count valid_bits valid_bits_offset n
       + (if slot_valid valid_bits valid_bits_offset n then 1 else 0)"

definition null_slots :: "bitmap \<Rightarrow> int \<Rightarrow> nat \<Rightarrow> nat" where
  "null_slots valid_bits valid_bits_offset n = n - valid_count valid_bits valid_bits_offset n"

text \<open>A bitmap given by the list of its bits from index 0 on; every other bit is clear.\<close>

definition bits_of :: "bool list \<Rightarrow> bitmap" where
  "bits_of bs i = (0 \<le> i \<and> i < int (length bs) \<and> bs ! nat i)"

subsection \<open>A concrete decoder\<close>

text \<open>
  Modelled from the spec: no concrete encoding is among the sources.  The format of a
  page is "defined entirely by the concrete encoding (opaque to the abstract
  contract)", so the state a concrete decoder adds to the base class is the list of
  the values of the loaded page that have not been emitted yet.
\<close>

record ('descr, 'enc, 'a) Page_Decoder = "('descr, 'enc) Decoder" +
  page :: "'a list"

text \<open>
  Modelled from the spec: "a concrete decoder is constructed with a borrowed Type
  Descriptor reference and a fixed encoding tag", which it hands to the constructor
  of the base class; no page is loaded yet.
\<close>

definition Page_Decoder :: "'descr \<Rightarrow> 'enc \<Rightarrow> ('descr, 'enc, 'a) Page_Decoder" where
  "Page_Decoder descr tag = Decoder.extend (Decoder descr tag) (Page_Decoder.fields [])"

text \<open>
  Modelled from the spec: \<open>SetData\<close> is pure virtual in the header.  \<open>Load(count, buffer)\<close>
  "must fully discard any unread state from a previous page" and "resets the
  remaining-value counter to \<open>count\<close>".
\<close>

definition Load ::
  "('descr, 'enc, 'a) Page_Decoder \<Rightarrow> int \<Rightarrow> 'a list \<Rightarrow> ('descr, 'enc, 'a) Page_Decoder" where
  "Load d count buffer = d\<lparr>num_values_fld := count, page := buffer\<rparr>"

text \<open>
  Modelled from the spec: the override of \<open>Decode\<close> in a concrete encoding.
  \<open>DecodeDense(maxCount)\<close> "decodes up to \<open>maxCount\<close> values from the current page into
  a caller-provided output region sized at least \<open>maxCount\<close>", "returns the number
  actually written, which must equal \<open>maxCount\<close> unless the page has fewer remaining
  values, in which case it returns however many remain (never more than remain)", and
  "decreases the remaining-value counter by the number written".  What remains is
  bounded by the counter and by the values the page really holds.  A region smaller
  than the number written is written past its end.
\<close>

definition DecodeDense :: "('a, ('descr, 'enc, 'a) Page_Decoder) decode_fn" where
  "DecodeDense d buffer maxCount =
     (let written = min maxCount (min (num_values_fld d) (int (length (page d)))) in
      if int (length buffer) < written then Undefined
      else Return written
             (take (nat written) (page d) @ drop (nat written) buffer,
              d\<lparr>num_values_fld := num_values_fld d - written,
                page := drop (nat written) (page d)\<rparr>))"

subsection \<open>Sequences of calls\<close>

datatype ('a, 'p) call =
  SetData_call int 'p
| Decode_call "'a list" int
| DecodeSpaced_call "'a list" int int bitmap int

text \<open>
  The decoder after a sequence of calls on it, each with its own output region.  The
  implementations of the two members a concrete encoding supplies are arguments.  An
  exception leaves the object as it is at the throw; after an undefined operation
  there is no object to speak of.
\<close>

definition state_after :: "('r, 's) outcome \<Rightarrow> 's option" where
  "state_after out = (case out of Return r s \<Rightarrow> Some s | Throw e s \<Rightarrow> Some s
                      | Undefined \<Rightarrow> None)"

definition after_call :: "(int, 'a list \<times> 'd) outcome \<Rightarrow> 'd option" where
  "after_call out = map_option snd (state_after out)"

fun run_calls ::
  "('d \<Rightarrow> int \<Rightarrow> 'p \<Rightarrow> 'd) \<Rightarrow> ('a, 'd) decode_fn \<Rightarrow> ('a, 'p) call list \<Rightarrow> 'd \<Rightarrow> 'd option" where
  "run_calls SetData_virtual Decode_virtual [] d = Some d"
| "run_calls SetData_virtual Decode_virtual (SetData_call n p # cs) d =
     run_calls SetData_virtual Decode_virtual cs (SetData_virtual d n p)"
| "run_calls SetData_virtual Decode_virtual (Decode_call buffer max_values # cs) d =
     (case after_call (Decode_virtual d buffer max_values) of
        None \<Rightarrow> None
      | Some d' \<Rightarrow> run_calls SetData_virtual Decode_virtual cs d')"
| "run_calls SetData_virtual Decode_virtual
       (DecodeSpaced_call buffer num_values null_count valid_bits valid_bits_offset # cs) d =
     (case after_call (DecodeSpaced Decode_virtual d buffer num_values null_count
                         valid_bits valid_bits_offset) of
        None \<Rightarrow> None
      | Some d' \<Rightarrow> run_calls SetData_virtual Decode_virtual cs d')"

text \<open>
  \<open>encoding_\<close> is declared \<open>const\<close>: no member function, overriding or not, can assign
  it.  This is what that means for the two implementations passed to \<open>run_calls\<close>.
\<close>

definition keeps_encoding ::
  "(('descr, 'enc, 'more) Decoder_scheme \<Rightarrow> int \<Rightarrow> 'p \<Rightarrow> ('descr, 'enc, 'more) Decoder_scheme)
     \<Rightarrow> ('a, ('descr, 'enc, 'more) Decoder_scheme) decode_fn \<Rightarrow> bool" where
  "keeps_encoding SetData_virtual Decode_virtual \<longleftrightarrow>
     (\<forall>d n p. encoding_fld (SetData_virtual d n p) = encoding_fld d) \<and>
     (\<forall>d buffer n d'. after_call (Decode_virtual d buffer n) = Some d'
        \<longrightarrow> encoding_fld d' = encoding_fld d)"

subsection \<open>The example of the specification\<close>

text \<open>
  Five slots with the null pattern 1, 0, 1, 0, 1 and a page holding the three values
  10, 20, 30; the caller's buffer holds 0 in every slot.
\<close>

definition example_bits :: bitmap where
  "example_bits = bits_of [True, False, True, False, True]"

definition example_decoder :: "(unit, string, int) Page_Decoder" where
  "example_decoder = Load (Page_Decoder () ''PLAIN'') 3 [10, 20, 30]"

definition example_buffer :: "int list" where
  "example_buffer = [0, 0, 0, 0, 0]"

subsection \<open>An override that reports too many values\<close>

text \<open>
  A \<open>Decode\<close> that writes nothing and reports one value more than it was asked for.
  The header documents that \<open>Decode\<close> decodes up to \<open>max_values\<close>, and does not
  enforce it: \<open>DecodeSpaced\<close> takes whatever number the override returns.
\<close>

definition Decode_one_more :: "('a, 'd) decode_fn" where
  "Decode_one_more d buffer max_values = Return (max_values + 1) (buffer, d)"

section \<open>Auxiliary facts\<close>

subsection \<open>Wrap-around, counting, and one step of the loop\<close>

lemma wrap_int32_id: "- 2147483648 \<le> x \<Longrightarrow> x \<le> 2147483647 \<Longrightarrow> wrap_int32 x = x"
  by (simp add: wrap_int32_def)

lemma valid_count_le: "valid_count vb off n \<le> n"
  by (induction n) auto

lemma valid_count_mono: "m \<le> n \<Longrightarrow> valid_count vb off m \<le> valid_count vb off n"
  by (induction n) (auto simp: le_Suc_eq)

lemma valid_count_less:
  "slot_valid vb off j \<Longrightarrow> j < n \<Longrightarrow> valid_count vb off j < valid_count vb off n"
proof -
  assume v: "slot_valid vb off j" and "j < n"
  then have "valid_count vb off (Suc j) \<le> valid_count vb off n"
    by (intro valid_count_mono) simp
  with v show ?thesis by simp
qed

lemma spacing_loop_stop: "i < 0 \<Longrightarrow> spacing_loop vb off i m b = Some b"
  by (simp add: spacing_loop.simps)

lemma spacing_loop_null:
  "\<not> slot_valid vb off n \<Longrightarrow>
   spacing_loop vb off (int n) m b = spacing_loop vb off (int n - 1) m b"
  by (subst spacing_loop.simps) (simp add: slot_valid_def)

lemma spacing_loop_valid:
  "slot_valid vb off n \<Longrightarrow>
   spacing_loop vb off (int n) m b =
     (let m' = wrap_int32 (m - 1) in
      if 0 \<le> m' \<and> m' < int (length b) \<and> int n < int (length b)
      then spacing_loop vb off (int n - 1) m' (b[n := b ! nat m'])
      else None)"
  by (subst spacing_loop.simps) (simp add: slot_valid_def Let_def)

lemma spacing_loop_correct:
  "n \<le> length b \<Longrightarrow> int n \<le> 2147483648 \<Longrightarrow>
   \<exists>out. spacing_loop vb off (int n - 1) (int (valid_count vb off n)) b = Some out
     \<and> length out = length b
     \<and> (\<forall>j < length b. out ! j =
           (if j < n \<and> slot_valid vb off j then b ! valid_count vb off j else b ! j))"
proof (induction n arbitrary: b)
  case 0
  then show ?case by (simp add: spacing_loop_stop)
next
  case (Suc n)
  show ?case
  proof (cases "slot_valid vb off n")
    case False
    from Suc.prems have "n \<le> length b" "int n \<le> 2147483648" by simp_all
    from Suc.IH [OF this] obtain out where
      o: "spacing_loop vb off (int n - 1) (int (valid_count vb off n)) b = Some out"
         "length out = length b"
         "\<forall>j < length b. out ! j =
            (if j < n \<and> slot_valid vb off j then b ! valid_count vb off j else b ! j)"
      by blast
    have "spacing_loop vb off (int (Suc n) - 1) (int (valid_count vb off (Suc n))) b = Some out"
      using False o(1) by (simp add: spacing_loop_null)
    moreover have "\<forall>j < length b. out ! j =
            (if j < Suc n \<and> slot_valid vb off j then b ! valid_count vb off j else b ! j)"
      using o(3) False by (auto simp: less_Suc_eq)
    ultimately show ?thesis using o(2) by blast
  next
    case True
    let ?k = "valid_count vb off n"
    let ?b = "b[n := b ! ?k]"
    have kn: "?k \<le> n" by (rule valid_count_le)
    from Suc.prems have nb: "n < length b" and n31: "int n < 2147483648" by simp_all
    have w: "wrap_int32 (int (valid_count vb off (Suc n)) - 1) = int ?k"
      using True kn n31 by (simp add: wrap_int32_id)
    have "n \<le> length ?b" "int n \<le> 2147483648" using nb n31 by simp_all
    from Suc.IH [OF this] obtain out where
      o: "spacing_loop vb off (int n - 1) (int ?k) ?b = Some out"
         "length out = length ?b"
         "\<forall>j < length ?b. out ! j =
            (if j < n \<and> slot_valid vb off j then ?b ! valid_count vb off j else ?b ! j)"
      by blast
    have step: "spacing_loop vb off (int (Suc n) - 1) (int (valid_count vb off (Suc n))) b = Some out"
      using True o(1) kn nb w by (simp add: spacing_loop_valid [OF True] Let_def del: valid_count.simps)
    have "out ! j = (if j < Suc n \<and> slot_valid vb off j then b ! valid_count vb off j else b ! j)"
      if j: "j < length b" for j
    proof -
      from o(3) j have oj: "out ! j =
        (if j < n \<and> slot_valid vb off j then ?b ! valid_count vb off j else ?b ! j)" by simp
      consider "j < n" | "j = n" | "n < j" by linarith
      then show ?thesis
      proof cases
        case 1
        have "valid_count vb off j \<le> j" by (rule valid_count_le)
        with 1 have "valid_count vb off j \<noteq> n" by simp
        with 1 oj show ?thesis by simp
      next
        case 2
        with oj nb True show ?thesis by simp
      next
        case 3
        with oj show ?thesis by simp
      qed
    qed
    with step o(2) show ?thesis by auto
  qed
qed

lemma spacing_moves_stop: "i < 0 \<Longrightarrow> spacing_moves vb off i m = []"
  by (simp add: spacing_moves.simps)

lemma spacing_moves_null:
  "\<not> slot_valid vb off n \<Longrightarrow>
   spacing_moves vb off (int n) m = spacing_moves vb off (int n - 1) m"
  by (subst spacing_moves.simps) (simp add: slot_valid_def)

lemma spacing_moves_valid:
  "slot_valid vb off n \<Longrightarrow>
   spacing_moves vb off (int n) m =
     (wrap_int32 (m - 1), int n) # spacing_moves vb off (int n - 1) (wrap_int32 (m - 1))"
  by (subst spacing_moves.simps) (simp add: slot_valid_def Let_def)

lemma spacing_loop_moves:
  "spacing_loop vb off i m b = apply_moves (spacing_moves vb off i m) b"
proof (induction vb off i m b rule: spacing_loop.induct)
  case (1 vb off i m b)
  show ?case
  proof (cases "0 \<le> i")
    case False
    then show ?thesis by (simp add: spacing_loop.simps spacing_moves.simps)
  next
    case nonneg: True
    show ?thesis
    proof (cases "GetBit vb (wrap_int64 (off + i))")
      case False
      with nonneg "1.IH"(2) show ?thesis
        by (subst spacing_loop.simps, subst spacing_moves.simps) simp
    next
      case True
      with nonneg "1.IH"(1) [OF nonneg True refl] show ?thesis
        by (subst spacing_loop.simps, subst spacing_moves.simps) (simp add: Let_def)
    qed
  qed
qed

lemma spacing_moves_ordered:
  "int n \<le> 2147483648 \<Longrightarrow>
   (\<forall>mv \<in> set (spacing_moves vb off (int n - 1) (int (valid_count vb off n))).
       0 \<le> fst mv \<and> fst mv \<le> snd mv \<and> snd mv < int n \<and> fst mv < int (valid_count vb off n))
   \<and> sorted_wrt before_move (spacing_moves vb off (int n - 1) (int (valid_count vb off n)))"
proof (induction n)
  case 0
  then show ?case by (simp add: spacing_moves_stop)
next
  case (Suc n)
  then have IH:
    "\<forall>mv \<in> set (spacing_moves vb off (int n - 1) (int (valid_count vb off n))).
       0 \<le> fst mv \<and> fst mv \<le> snd mv \<and> snd mv < int n \<and> fst mv < int (valid_count vb off n)"
    "sorted_wrt before_move (spacing_moves vb off (int n - 1) (int (valid_count vb off n)))"
    by simp_all
  show ?case
  proof (cases "slot_valid vb off n")
    case False
    then have "spacing_moves vb off (int (Suc n) - 1) (int (valid_count vb off (Suc n)))
      = spacing_moves vb off (int n - 1) (int (valid_count vb off n))"
      by (simp add: spacing_moves_null)
    with IH False show ?thesis by auto
  next
    case True
    have kn: "valid_count vb off n \<le> n" by (rule valid_count_le)
    from Suc.prems have n31: "int n < 2147483648" by simp
    have w: "wrap_int32 (int (valid_count vb off (Suc n)) - 1) = int (valid_count vb off n)"
      using True kn n31 by (simp add: wrap_int32_id)
    have eq: "spacing_moves vb off (int (Suc n) - 1) (int (valid_count vb off (Suc n)))
      = (int (valid_count vb off n), int n)
          # spacing_moves vb off (int n - 1) (int (valid_count vb off n))"
      using w by (simp add: spacing_moves_valid [OF True] del: valid_count.simps)
    have head: "\<forall>mv \<in> set (spacing_moves vb off (int n - 1) (int (valid_count vb off n))).
        before_move (int (valid_count vb off n), int n) mv"
      using IH(1) kn by (auto simp: before_move_def)
    have bounds: "\<forall>mv \<in> set (spacing_moves vb off (int n - 1) (int (valid_count vb off n))).
       0 \<le> fst mv \<and> fst mv \<le> snd mv \<and> snd mv < int (Suc n)
         \<and> fst mv < int (valid_count vb off (Suc n))"
      using IH(1) by auto
    show ?thesis
      unfolding eq using head bounds IH(2) True kn by simp
  qed
qed

lemma spacing_moves_all_valid:
  "int n \<le> 2147483648 \<Longrightarrow> \<forall>i < n. slot_valid vb off i \<Longrightarrow>
   spacing_moves vb off (int n - 1) (int n) = map (\<lambda>i. (int i, int i)) (rev [0..<n])"
proof (induction n)
  case 0
  then show ?case by (simp add: spacing_moves_stop)
next
  case (Suc n)
  then have v: "slot_valid vb off n" by simp
  have w: "wrap_int32 (int (Suc n) - 1) = int n"
    using Suc.prems by (simp add: wrap_int32_id)
  show ?case using Suc w by (simp add: spacing_moves_valid [OF v])
qed

lemma valid_count_all_valid:
  "\<forall>i < n. slot_valid vb off i \<Longrightarrow> valid_count vb off n = n"
  by (induction n) auto

lemma apply_moves_identity:
  "n \<le> length b \<Longrightarrow> apply_moves (map (\<lambda>i. (int i, int i)) (rev [0..<n])) b = Some b"
  by (induction n) auto

lemma after_call_DecodeSpaced:
  "after_call (DecodeSpaced D d buffer nv nc vb off) = Some d' \<Longrightarrow>
   after_call (D d buffer (wrap_int32 (nv - nc))) = Some d'"
  by (auto simp: DecodeSpaced_def after_call_def state_after_def Let_def
           split: outcome.splits prod.splits if_splits option.splits)

lemma run_calls_encoding:
  "keeps_encoding S D \<Longrightarrow> run_calls S D cs d = Some d' \<Longrightarrow> encoding_fld d' = encoding_fld d"
proof (induction cs arbitrary: d)
  case Nil
  then show ?case by simp
next
  case (Cons c cs)
  show ?case
  proof (cases c)
    case (SetData_call n p)
    with Cons.prems have "run_calls S D cs (S d n p) = Some d'" by simp
    from Cons.IH [OF Cons.prems(1) this] Cons.prems(1) show ?thesis
      by (simp add: keeps_encoding_def)
  next
    case (Decode_call buffer n)
    with Cons.prems obtain d1 where
      d1: "after_call (D d buffer n) = Some d1" "run_calls S D cs d1 = Some d'"
      by (auto split: option.splits)
    from Cons.IH [OF Cons.prems(1) d1(2)] d1(1) Cons.prems(1) show ?thesis
      by (auto simp: keeps_encoding_def)
  next
    case (DecodeSpaced_call buffer nv nc vb off)
    with Cons.prems obtain d1 where
      d1: "after_call (DecodeSpaced D d buffer nv nc vb off) = Some d1"
          "run_calls S D cs d1 = Some d'"
      by (auto split: option.splits)
    from after_call_DecodeSpaced [OF d1(1)] Cons.IH [OF Cons.prems(1) d1(2)] Cons.prems(1)
    show ?thesis
      by (auto simp: keeps_encoding_def)
  qed
qed

subsection \<open>The sources of the moves; the concrete decoder\<close>

lemma spacing_moves_sources:
  "int n \<le> 2147483648 \<Longrightarrow>
   map fst (spacing_moves vb off (int n - 1) (int (valid_count vb off n)))
     = map int (rev [0..<valid_count vb off n])"
proof (induction n)
  case 0
  then show ?case by (simp add: spacing_moves_stop)
next
  case (Suc n)
  show ?case
  proof (cases "slot_valid vb off n")
    case False
    with Suc show ?thesis by (simp add: spacing_moves_null)
  next
    case True
    have kn: "valid_count vb off n \<le> n" by (rule valid_count_le)
    from Suc.prems have n31: "int n < 2147483648" by simp
    have w: "wrap_int32 (int (valid_count vb off (Suc n)) - 1) = int (valid_count vb off n)"
      using True kn n31 by (simp add: wrap_int32_id)
    have eq: "spacing_moves vb off (int (Suc n) - 1) (int (valid_count vb off (Suc n)))
      = (int (valid_count vb off n), int n)
          # spacing_moves vb off (int n - 1) (int (valid_count vb off n))"
      using w by (simp add: spacing_moves_valid [OF True] del: valid_count.simps)
    show ?thesis unfolding eq using Suc True by simp
  qed
qed

lemma keeps_encoding_Page_Decoder: "keeps_encoding Load DecodeDense"
  by (auto simp: keeps_encoding_def Load_def DecodeDense_def after_call_def state_after_def
        Let_def split: if_splits)

lemma DecodeDense_bound: "DecodeDense d buffer m = Return r s \<Longrightarrow> r \<le> values_left d \<and> r \<le> m"
  by (auto simp: DecodeDense_def values_left_def Let_def split: if_splits)

subsection \<open>The example, evaluated\<close>

lemma example_decoder_eq:
  "example_decoder =
     \<lparr>descr_fld = (), encoding_fld = ''PLAIN'', num_values_fld = 3, page = [10, 20, 30]\<rparr>"
  by (simp add: example_decoder_def Load_def Page_Decoder_def Decoder_def
        Decoder.defs Page_Decoder.defs)

lemma example_null_slots: "null_slots example_bits 0 5 = 2"
  by (simp add: null_slots_def eval_nat_numeral slot_valid_def GetBit_def wrap_int64_def
        example_bits_def bits_of_def)

lemma example_DecodeDense:
  "DecodeDense example_decoder example_buffer 3 =
     Return 3 ([10, 20, 30, 0, 0],
       \<lparr>descr_fld = (), encoding_fld = ''PLAIN'', num_values_fld = 0, page = []\<rparr>)"
  by (simp add: example_decoder_eq DecodeDense_def example_buffer_def)

lemma example_spacing_moves:
  "spacing_moves example_bits 0 4 3 = [(2, 4), (1, 2), (0, 0)]"
  by (simp add: spacing_moves.simps GetBit_def wrap_int64_def wrap_int32_def
        example_bits_def bits_of_def)

lemma example_DecodeDense_short:
  "DecodeDense example_decoder [0, 0, 0, 0, 0, 0] 4 =
     Return 3 ([10, 20, 30, 0, 0, 0],
       \<lparr>descr_fld = (), encoding_fld = ''PLAIN'', num_values_fld = 0, page = []\<rparr>)"
  by (simp add: example_decoder_eq DecodeDense_def)

section \<open>The claims\<close>

subsection \<open>C1: what DecodeSpaced leaves in the buffer\<close>

text \<open>
  C1, as the code has it.  Let the buffer have \<open>num_values\<close> slots, let \<open>null_count\<close> be
  the number of clear bits among the \<open>num_values\<close> bits from \<open>valid_bits_offset\<close> on, and
  let the dense decode return \<open>num_values - null_count\<close> after writing that many values
  to the front of the buffer.  Then \<open>DecodeSpaced\<close> returns \<open>num_values\<close>, and afterwards
  \<^item> a non-null slot holds the dense value whose rank is the number of non-null slots
    before it: the dense values appear in the non-null slots in their original order;
  \<^item> a null slot at an index of at least \<open>num_values - null_count\<close> holds what the
    caller put there;
  \<^item> a null slot at an index below \<open>num_values - null_count\<close> holds the value the dense
    decode wrote at that index, not the caller's: the dense run is written over the
    front of the same buffer before it is spread out.
\<close>

theorem DecodeSpaced_spaces_values:
  assumes "0 \<le> num_values" and "num_values \<le> INT_MAX"
    and "length buffer = nat num_values"
    and "null_count = int (null_slots valid_bits valid_bits_offset (nat num_values))"
    and "length values = nat (num_values - null_count)"
    and "Decode_virtual d buffer (num_values - null_count) =
           Return (num_values - null_count) (values @ drop (length values) buffer, d')"
  shows "\<exists>out. DecodeSpaced Decode_virtual d buffer num_values null_count
                  valid_bits valid_bits_offset = Return num_values (out, d')
           \<and> length out = nat num_values
           \<and> (\<forall>i < nat num_values. out ! i =
                 (if slot_valid valid_bits valid_bits_offset i
                  then values ! valid_count valid_bits valid_bits_offset i
                  else if i < length values then values ! i else buffer ! i))"
proof -
  let ?n = "nat num_values"
  let ?k = "valid_count valid_bits valid_bits_offset ?n"
  let ?b = "values @ drop (length values) buffer"
  have kn: "?k \<le> ?n" by (rule valid_count_le)
  have n: "int ?n = num_values" using assms(1) by simp
  have n31: "int ?n \<le> 2147483648" using assms(1,2) by (simp add: INT_MAX_def)
  have vtr: "num_values - null_count = int ?k"
    using kn n assms(4) by (simp add: null_slots_def)
  have lv: "length values = ?k" using assms(5) vtr by simp
  have lb: "length ?b = ?n" using lv kn assms(3) by simp
  have k31: "int ?k \<le> 2147483647"
    using kn n assms(2) unfolding INT_MAX_def by linarith
  have w1: "wrap_int32 (num_values - null_count) = int ?k"
    using k31 by (simp add: vtr wrap_int32_id)
  have w2: "wrap_int32 (num_values - 1) = num_values - 1"
    using assms(1,2) by (simp add: wrap_int32_id INT_MAX_def)
  have dec: "Decode_virtual d buffer (int ?k) = Return (int ?k) (?b, d')"
    using assms(6) unfolding vtr .
  from spacing_loop_correct [of ?n ?b valid_bits valid_bits_offset] lb n31
  obtain out where
    o: "spacing_loop valid_bits valid_bits_offset (int ?n - 1) (int ?k) ?b = Some out"
       "length out = length ?b"
       "\<forall>j < length ?b. out ! j =
          (if j < ?n \<and> slot_valid valid_bits valid_bits_offset j
           then ?b ! valid_count valid_bits valid_bits_offset j else ?b ! j)"
    by auto
  have loop: "spacing_loop valid_bits valid_bits_offset (num_values - 1) (int ?k) ?b = Some out"
    using o(1) assms(1) by simp
  have run: "DecodeSpaced Decode_virtual d buffer num_values null_count
               valid_bits valid_bits_offset = Return num_values (out, d')"
    unfolding DecodeSpaced_def Let_def w1 w2 dec by (simp add: loop)
  have slots: "out ! i =
         (if slot_valid valid_bits valid_bits_offset i
          then values ! valid_count valid_bits valid_bits_offset i
          else if i < length values then values ! i else buffer ! i)"
    if i: "i < ?n" for i
  proof (cases "slot_valid valid_bits valid_bits_offset i")
    case True
    from valid_count_less [OF True i] lv
    have "valid_count valid_bits valid_bits_offset i < length values" by simp
    with o(3) i lb True show ?thesis by (simp add: nth_append)
  next
    case False
    with o(3) i lb have "out ! i = ?b ! i" by simp
    with False i lv kn assms(3) show ?thesis by (simp add: nth_append)
  qed
  have "length out = ?n" using o(2) lb by simp
  with run slots show ?thesis by (intro exI [of _ out]) simp
qed

text \<open>
  The theorem at the example of the specification: the pattern 1, 0, 1, 0, 1 and the
  page 10, 20, 30 over a buffer of zeros.
\<close>

theorem DecodeSpaced_spaces_values_example:
  "\<exists>out. DecodeSpaced DecodeDense example_decoder example_buffer 5 2 example_bits 0 =
            Return 5 (out,
              \<lparr>descr_fld = (), encoding_fld = ''PLAIN'', num_values_fld = 0, page = []\<rparr>)
     \<and> length out = 5
     \<and> out ! 0 = 10 \<and> out ! 1 = 20 \<and> out ! 2 = 20 \<and> out ! 3 = 0 \<and> out ! 4 = 30"
proof -
  have "\<exists>out. DecodeSpaced DecodeDense example_decoder example_buffer 5 2 example_bits 0 =
            Return 5 (out,
              \<lparr>descr_fld = (), encoding_fld = ''PLAIN'', num_values_fld = 0, page = []\<rparr>)
     \<and> length out = nat 5
     \<and> (\<forall>i < nat 5. out ! i =
           (if slot_valid example_bits 0 i then [10, 20, 30] ! valid_count example_bits 0 i
            else if i < length [10, 20, 30 :: int] then [10, 20, 30] ! i
            else example_buffer ! i))"
    by (rule DecodeSpaced_spaces_values)
       (simp_all add: INT_MAX_def example_null_slots example_DecodeDense,
        simp_all add: example_buffer_def)
  then obtain out where
    o: "DecodeSpaced DecodeDense example_decoder example_buffer 5 2 example_bits 0 =
            Return 5 (out,
              \<lparr>descr_fld = (), encoding_fld = ''PLAIN'', num_values_fld = 0, page = []\<rparr>)"
       "length out = nat 5"
       "\<forall>i < nat 5. out ! i =
           (if slot_valid example_bits 0 i then [10, 20, 30] ! valid_count example_bits 0 i
            else if i < length [10, 20, 30 :: int] then [10, 20, 30] ! i
            else example_buffer ! i)"
    by blast
  have v: "slot_valid example_bits 0 0" "\<not> slot_valid example_bits 0 1"
    "slot_valid example_bits 0 2" "\<not> slot_valid example_bits 0 3"
    "slot_valid example_bits 0 4"
    by (simp_all add: slot_valid_def GetBit_def wrap_int64_def example_bits_def bits_of_def)
  have c: "valid_count example_bits 0 0 = 0" "valid_count example_bits 0 2 = 1"
    "valid_count example_bits 0 4 = 2"
    using v by (simp_all add: eval_nat_numeral)
  from o(3) have "out ! 0 = 10" "out ! 1 = 20" "out ! 2 = 20" "out ! 3 = 0" "out ! 4 = 30"
    using v c by (simp_all add: example_buffer_def)
  with o(1,2) show ?thesis by auto
qed

text \<open>
  C1 as stated asks that every null slot still hold the caller's value.  In the same
  example every hypothesis of the claim holds, slot 1 is null, the caller put 0 there,
  and after the call it holds 20.
\<close>

theorem DecodeSpaced_null_slot_overwritten:
  "length example_buffer = nat 5
   \<and> 2 = int (null_slots example_bits 0 (nat 5))
   \<and> DecodeDense example_decoder example_buffer (5 - 2) =
       Return (5 - 2) ([10, 20, 30] @ drop 3 example_buffer,
         \<lparr>descr_fld = (), encoding_fld = ''PLAIN'', num_values_fld = 0, page = []\<rparr>)
   \<and> \<not> slot_valid example_bits 0 1
   \<and> DecodeSpaced DecodeDense example_decoder example_buffer 5 2 example_bits 0 =
       Return 5 ([10, 20, 20, 0, 30],
         \<lparr>descr_fld = (), encoding_fld = ''PLAIN'', num_values_fld = 0, page = []\<rparr>)
   \<and> [10, 20, 20, 0, 30] ! 1 \<noteq> example_buffer ! 1"
proof -
  have "DecodeSpaced DecodeDense example_decoder example_buffer 5 2 example_bits 0 =
       Return 5 ([10, 20, 20, 0, 30],
         \<lparr>descr_fld = (), encoding_fld = ''PLAIN'', num_values_fld = 0, page = []\<rparr>)"
    by (simp add: DecodeSpaced_def example_DecodeDense spacing_loop.simps GetBit_def
          wrap_int64_def wrap_int32_def example_bits_def bits_of_def)
  moreover have "\<not> slot_valid example_bits 0 1"
    by (simp add: slot_valid_def GetBit_def wrap_int64_def example_bits_def bits_of_def)
  moreover have "DecodeDense example_decoder example_buffer (5 - 2) =
       Return (5 - 2) ([10, 20, 30] @ drop 3 example_buffer,
         \<lparr>descr_fld = (), encoding_fld = ''PLAIN'', num_values_fld = 0, page = []\<rparr>)"
    by (simp add: example_DecodeDense) (simp add: example_buffer_def)
  ultimately show ?thesis
    by (simp add: example_null_slots) (simp add: example_buffer_def)
qed

subsection \<open>C2: the order of the moves\<close>

text \<open>
  C2.  Let \<open>null_count\<close> be the number of clear bits among the \<open>num_values\<close> addressed
  bits, so that the loop starts with \<open>values_to_move = num_values - null_count\<close>.  Then
  every move of the loop reads a slot at or below the slot it writes, inside the
  buffer; of two moves the later one reads a slot strictly below the one the earlier
  move read and strictly below the one the earlier move wrote, so the value it reads
  has not been written over; the slots read are \<open>num_values - null_count - 1\<close> down to
  0, each once; and performing the recorded moves is what the loop does.
\<close>

theorem DecodeSpaced_moves_backward:
  assumes "0 \<le> num_values" and "num_values \<le> INT_MAX"
    and "null_count = int (null_slots valid_bits valid_bits_offset (nat num_values))"
    and "moves = spacing_moves valid_bits valid_bits_offset (wrap_int32 (num_values - 1))
                   (wrap_int32 (num_values - null_count))"
  shows "(\<forall>mv \<in> set moves. 0 \<le> fst mv \<and> fst mv \<le> snd mv \<and> snd mv < num_values)
       \<and> sorted_wrt before_move moves
       \<and> map fst moves = map int (rev [0..<nat (num_values - null_count)])
       \<and> (\<forall>buffer. spacing_loop valid_bits valid_bits_offset (wrap_int32 (num_values - 1))
                      (wrap_int32 (num_values - null_count)) buffer
                    = apply_moves moves buffer)"
proof -
  let ?n = "nat num_values"
  let ?k = "valid_count valid_bits valid_bits_offset ?n"
  have kn: "?k \<le> ?n" by (rule valid_count_le)
  have n: "int ?n = num_values" using assms(1) by simp
  have n31: "int ?n \<le> 2147483648" using assms(1,2) by (simp add: INT_MAX_def)
  have vtr: "num_values - null_count = int ?k"
    using kn n assms(3) by (simp add: null_slots_def)
  have k31: "int ?k \<le> 2147483647"
    using kn n assms(2) unfolding INT_MAX_def by linarith
  have w1: "wrap_int32 (num_values - null_count) = int ?k"
    using k31 by (simp add: vtr wrap_int32_id)
  have w2: "wrap_int32 (num_values - 1) = int ?n - 1"
    using assms(1,2) by (simp add: wrap_int32_id INT_MAX_def)
  have m: "moves = spacing_moves valid_bits valid_bits_offset (int ?n - 1) (int ?k)"
    unfolding assms(4) w1 w2 ..
  from spacing_moves_ordered [OF n31, of valid_bits valid_bits_offset]
  have ord: "\<forall>mv \<in> set moves. 0 \<le> fst mv \<and> fst mv \<le> snd mv \<and> snd mv < int ?n"
    and srt: "sorted_wrt before_move moves"
    unfolding m by blast+
  from ord have bounds: "\<forall>mv \<in> set moves. 0 \<le> fst mv \<and> fst mv \<le> snd mv \<and> snd mv < num_values"
    unfolding n .
  have src: "map fst moves = map int (rev [0..<nat (num_values - null_count)])"
    unfolding m vtr using spacing_moves_sources [OF n31, of valid_bits valid_bits_offset]
    by simp
  have "spacing_loop valid_bits valid_bits_offset (wrap_int32 (num_values - 1))
           (wrap_int32 (num_values - null_count)) buffer = apply_moves moves buffer" for buffer
    unfolding assms(4) by (rule spacing_loop_moves)
  with bounds srt src show ?thesis by blast
qed

text \<open>
  In the example the moves are 2 to 4, 1 to 2 and 0 to 0.
\<close>

theorem DecodeSpaced_moves_backward_example:
  "spacing_moves example_bits 0 (wrap_int32 (5 - 1)) (wrap_int32 (5 - 2))
     = [(2, 4), (1, 2), (0, 0 :: int)]
   \<and> sorted_wrt before_move [(2, 4), (1, 2), (0, 0)]
   \<and> map fst [(2, 4), (1, 2), (0 :: int, 0 :: int)] = map int (rev [0..<nat (5 - 2)])"
proof -
  have m: "[(2, 4), (1, 2), (0, 0 :: int)]
     = spacing_moves example_bits 0 (wrap_int32 (5 - 1)) (wrap_int32 (5 - 2))"
    by (simp add: wrap_int32_def example_spacing_moves)
  have h: "(2::int) = int (null_slots example_bits 0 (nat 5))"
    by (simp add: example_null_slots)
  have c: "(0::int) \<le> 5" "(5::int) \<le> INT_MAX"
    by (simp_all add: INT_MAX_def)
  from DecodeSpaced_moves_backward [OF c h m]
  have "sorted_wrt before_move [(2, 4), (1, 2), (0, 0)]"
    and "map fst [(2, 4), (1, 2), (0 :: int, 0 :: int)] = map int (rev [0..<nat (5 - 2)])"
    by blast+
  with m [symmetric] show ?thesis by blast
qed

subsection \<open>C3: when the count mismatch is raised\<close>

text \<open>
  C3, as the code has it.  Let the dense decode return \<open>values_read\<close> for the request
  of \<open>num_values - null_count\<close> values.  Then \<open>DecodeSpaced\<close> throws the count-mismatch
  exception if and only if \<open>values_read\<close> differs from the number requested, whether it
  is smaller or larger (line 61 tests \<open>values_read != values_to_read\<close>); in particular
  a call that returns has not thrown it.
\<close>

theorem DecodeSpaced_mismatch_iff_differs:
  assumes "values_to_read = wrap_int32 (num_values - null_count)"
    and "Decode_virtual d buffer values_to_read = Return values_read s"
  shows "(\<exists>s'. DecodeSpaced Decode_virtual d buffer num_values null_count
                 valid_bits valid_bits_offset = Throw decode_count_mismatch s')
         \<longleftrightarrow> values_read \<noteq> values_to_read"
proof (cases "values_read = values_to_read")
  case True
  obtain buffer' d' where s: "s = (buffer', d')" by (cases s)
  from True assms(1,2) s have
    "DecodeSpaced Decode_virtual d buffer num_values null_count valid_bits valid_bits_offset =
       (case spacing_loop valid_bits valid_bits_offset (wrap_int32 (num_values - 1))
               values_read buffer' of
          None \<Rightarrow> Undefined | Some buffer'' \<Rightarrow> Return num_values (buffer'', d'))"
    by (simp add: DecodeSpaced_def)
  then have "\<not> (\<exists>s'. DecodeSpaced Decode_virtual d buffer num_values null_count
                 valid_bits valid_bits_offset = Throw decode_count_mismatch s')"
    by (simp split: option.splits)
  with True show ?thesis by simp
next
  case False
  obtain buffer' d' where s: "s = (buffer', d')" by (cases s)
  from False assms(1,2) s have
    "DecodeSpaced Decode_virtual d buffer num_values null_count valid_bits valid_bits_offset =
       Throw decode_count_mismatch s"
    by (simp add: DecodeSpaced_def)
  with False show ?thesis by auto
qed

text \<open>
  Six slots with two nulls ask for four values of a page that holds three.
\<close>

theorem DecodeSpaced_mismatch_iff_differs_example:
  "DecodeDense example_decoder [0, 0, 0, 0, 0, 0] (wrap_int32 (6 - 2)) =
     Return 3 ([10, 20, 30, 0, 0, 0],
       \<lparr>descr_fld = (), encoding_fld = ''PLAIN'', num_values_fld = 0, page = []\<rparr>)
   \<and> (\<exists>s'. DecodeSpaced DecodeDense example_decoder [0, 0, 0, 0, 0, 0] 6 2 example_bits 0
              = Throw decode_count_mismatch s')"
proof -
  have w: "wrap_int32 (6 - 2) = 4" by (simp add: wrap_int32_def)
  have r: "DecodeDense example_decoder [0, 0, 0, 0, 0, 0] (wrap_int32 (6 - 2)) =
     Return 3 ([10, 20, 30, 0, 0, 0],
       \<lparr>descr_fld = (), encoding_fld = ''PLAIN'', num_values_fld = 0, page = []\<rparr>)"
    unfolding w by (rule example_DecodeDense_short)
  have ne: "(3::int) \<noteq> wrap_int32 (6 - 2)" unfolding w by simp
  from DecodeSpaced_mismatch_iff_differs
         [where Decode_virtual = DecodeDense and d = example_decoder
            and buffer = "[0, 0, 0, 0, 0, 0]" and num_values = 6 and null_count = 2
            and valid_bits = example_bits and valid_bits_offset = 0,
          OF refl r] ne
  have "\<exists>s'. DecodeSpaced DecodeDense example_decoder [0, 0, 0, 0, 0, 0] 6 2 example_bits 0
              = Throw decode_count_mismatch s'"
    by blast
  with r show ?thesis by blast
qed

text \<open>
  C3 as stated has the exception thrown only when the dense decode returns fewer
  values than requested.  Here two slots without nulls ask for two values, the
  override returns 3, which is not fewer than 2, and the exception is thrown.
\<close>

theorem DecodeSpaced_mismatch_on_more:
  "wrap_int32 (2 - 0) = 2
   \<and> Decode_one_more (Decoder () ''PLAIN'') [0, 0 :: int] 2
       = Return 3 ([0, 0], Decoder () ''PLAIN'')
   \<and> \<not> (3 :: int) < 2
   \<and> DecodeSpaced Decode_one_more (Decoder () ''PLAIN'') [0, 0 :: int] 2 0
         (bits_of [True, True]) 0
       = Throw decode_count_mismatch ([0, 0], Decoder () ''PLAIN'')"
  by (simp add: DecodeSpaced_def Decode_one_more_def wrap_int32_def)

subsection \<open>C4: the buffer after a count mismatch\<close>

text \<open>
  C4.  Let the dense decode return \<open>k\<close>, fewer than the \<open>num_values - null_count\<close>
  requested, having left every slot from \<open>k\<close> on as the caller provided it.  Then
  \<open>DecodeSpaced\<close> ends by throwing the count-mismatch exception, so it returns no count,
  and the buffer and the decoder are exactly as the dense decode left them: the loop
  has not run, and every slot from \<open>k\<close> on still holds the caller's value.
\<close>

theorem DecodeSpaced_mismatch_state:
  assumes "values_to_read = wrap_int32 (num_values - null_count)"
    and "Decode_virtual d buffer values_to_read = Return k (buffer', d')"
    and "k < values_to_read"
    and "\<forall>i. k \<le> int i \<and> i < length buffer \<longrightarrow> buffer' ! i = buffer ! i"
  shows "\<exists>out. DecodeSpaced Decode_virtual d buffer num_values null_count
                  valid_bits valid_bits_offset = Throw decode_count_mismatch (out, d')
           \<and> out = buffer'
           \<and> (\<forall>i. k \<le> int i \<and> i < length buffer \<longrightarrow> out ! i = buffer ! i)"
  using assms by (simp add: DecodeSpaced_def)

text \<open>
  The same request: the three decoded values are at the front, the slots 3, 4 and 5
  are the caller's.
\<close>

theorem DecodeSpaced_mismatch_state_example:
  "\<exists>out. DecodeSpaced DecodeDense example_decoder [0, 0, 0, 0, 0, 0] 6 2 example_bits 0
       = Throw decode_count_mismatch (out,
           \<lparr>descr_fld = (), encoding_fld = ''PLAIN'', num_values_fld = 0, page = []\<rparr>)
     \<and> out = [10, 20, 30, 0, 0, 0]
     \<and> out ! 3 = [0, 0, 0, 0, 0, 0] ! 3 \<and> out ! 4 = [0, 0, 0, 0, 0, 0] ! 4
     \<and> out ! 5 = [0, 0, 0, 0, 0, 0] ! 5"
proof -
  have w: "wrap_int32 (6 - 2) = 4" by (simp add: wrap_int32_def)
  have r: "DecodeDense example_decoder [0, 0, 0, 0, 0, 0] 4 =
     Return 3 ([10, 20, 30, 0, 0, 0],
       \<lparr>descr_fld = (), encoding_fld = ''PLAIN'', num_values_fld = 0, page = []\<rparr>)"
    by (rule example_DecodeDense_short)
  have frame: "\<forall>i. 3 \<le> int i \<and> i < length [0, 0, 0, 0, 0, 0 :: int]
                 \<longrightarrow> [10, 20, 30, 0, 0, 0] ! i = [0, 0, 0, 0, 0, 0 :: int] ! i"
    by (auto simp: nth_Cons split: nat.splits)
  have lt: "(3::int) < 4" by simp
  from DecodeSpaced_mismatch_state
         [where Decode_virtual = DecodeDense and d = example_decoder
            and buffer = "[0, 0, 0, 0, 0, 0]" and num_values = 6 and null_count = 2
            and valid_bits = example_bits and valid_bits_offset = 0,
          OF w [symmetric] r lt frame]
  show ?thesis by auto
qed

subsection \<open>C5: the dense decode of a concrete decoder\<close>

text \<open>
  C5, for the concrete decoder modelled from the specification.  Let the loaded page
  have \<open>N\<close> remaining values, let \<open>maxCount \<le> N\<close>, and let the output region have room
  for \<open>maxCount\<close> values.  Then \<open>DecodeDense\<close> returns exactly \<open>maxCount\<close>, having
  written the next \<open>maxCount\<close> values of the page to the front of the region, and
  \<open>values_left\<close> has decreased by \<open>maxCount\<close>.  Whatever is asked for, the number
  returned is never more than the remaining count.
\<close>

theorem DecodeDense_returns_maxCount:
  assumes "values_left d = N" and "int (length (page d)) = N"
    and "maxCount \<le> N" and "maxCount \<le> int (length buffer)"
  shows "(\<exists>d'. DecodeDense d buffer maxCount =
                Return maxCount (take (nat maxCount) (page d) @ drop (nat maxCount) buffer, d')
           \<and> values_left d' = values_left d - maxCount)
       \<and> (\<forall>m r s. DecodeDense d buffer m = Return r s \<longrightarrow> r \<le> values_left d)"
proof -
  have "\<exists>d'. DecodeDense d buffer maxCount =
                Return maxCount (take (nat maxCount) (page d) @ drop (nat maxCount) buffer, d')
           \<and> values_left d' = values_left d - maxCount"
    using assms by (simp add: DecodeDense_def values_left_def min_def)
  moreover have "\<forall>m r s. DecodeDense d buffer m = Return r s \<longrightarrow> r \<le> values_left d"
    using DecodeDense_bound [of d buffer] by blast
  ultimately show ?thesis by blast
qed

text \<open>
  Two of the three values of the example page.
\<close>

theorem DecodeDense_returns_maxCount_example:
  "values_left example_decoder = 3 \<and> int (length (page example_decoder)) = 3
   \<and> (\<exists>d'. DecodeDense example_decoder example_buffer 2 =
              Return 2 ([10, 20, 0, 0, 0], d')
         \<and> values_left d' = 1)"
proof -
  have h: "values_left example_decoder = 3" "int (length (page example_decoder)) = 3"
    by (simp_all add: example_decoder_eq values_left_def)
  have b: "(2::int) \<le> int (length example_buffer)" by (simp add: example_buffer_def)
  have c: "(2::int) \<le> 3" by simp
  from DecodeDense_returns_maxCount [OF h c b]
  obtain d' where "DecodeDense example_decoder example_buffer 2 =
        Return 2 (take (nat 2) (page example_decoder) @ drop (nat 2) example_buffer, d')"
    "values_left d' = values_left example_decoder - 2"
    by blast
  then have "DecodeDense example_decoder example_buffer 2 = Return 2 ([10, 20, 0, 0, 0], d')
      \<and> values_left d' = 1"
    using h by (simp add: example_decoder_eq example_buffer_def)
  with h show ?thesis by blast
qed

subsection \<open>C6: loading a page resets the counter\<close>

text \<open>
  C6, for the concrete decoder modelled from the specification.  After \<open>Load\<close> with a
  count, \<open>values_left\<close> is that count and the page is the new one, whatever state the
  decoder was in before: freshly constructed, or with unread values of an earlier page.
\<close>

theorem Load_resets_values_left:
  "values_left (Load d count buffer) = count \<and> page (Load d count buffer) = buffer"
  by (simp add: Load_def values_left_def)

subsection \<open>C7: no nulls\<close>

text \<open>
  C7.  Let \<open>null_count\<close> be 0 and every one of the \<open>num_values\<close> addressed bits be set,
  and let the buffer the dense decode hands back have room for \<open>num_values\<close> values.
  Then the buffer and the decoder after \<open>DecodeSpaced\<close> are the buffer and the decoder
  after the dense decode of \<open>num_values\<close> values, however that decode ends; when it
  returns \<open>num_values\<close>, so does \<open>DecodeSpaced\<close>; and the moves of the loop are
  \<open>buffer[i] = buffer[i]\<close> for \<open>i\<close> from \<open>num_values - 1\<close> down to 0, each slot once,
  none of which changes the place of a value.
\<close>

theorem DecodeSpaced_without_nulls:
  assumes "0 \<le> num_values" and "num_values \<le> INT_MAX"
    and "\<forall>i < nat num_values. slot_valid valid_bits valid_bits_offset i"
    and "\<forall>buffer' d'. Decode_virtual d buffer num_values = Return num_values (buffer', d')
           \<longrightarrow> nat num_values \<le> length buffer'"
  shows "state_after (DecodeSpaced Decode_virtual d buffer num_values 0
                        valid_bits valid_bits_offset)
           = state_after (Decode_virtual d buffer num_values)
       \<and> (\<forall>s. Decode_virtual d buffer num_values = Return num_values s
              \<longrightarrow> DecodeSpaced Decode_virtual d buffer num_values 0
                    valid_bits valid_bits_offset = Return num_values s)
       \<and> spacing_moves valid_bits valid_bits_offset (wrap_int32 (num_values - 1)) num_values
           = map (\<lambda>i. (int i, int i)) (rev [0..<nat num_values])"
proof -
  let ?n = "nat num_values"
  have n: "int ?n = num_values" using assms(1) by simp
  have n31: "int ?n \<le> 2147483648" using assms(1,2) by (simp add: INT_MAX_def)
  have w1: "wrap_int32 (num_values - 0) = num_values"
    using assms(1,2) by (simp add: wrap_int32_id INT_MAX_def)
  have w2: "wrap_int32 (num_values - 1) = int ?n - 1"
    using assms(1,2) by (simp add: wrap_int32_id INT_MAX_def)
  have moves: "spacing_moves valid_bits valid_bits_offset (wrap_int32 (num_values - 1)) num_values
           = map (\<lambda>i. (int i, int i)) (rev [0..<?n])"
    using spacing_moves_all_valid [OF n31 assms(3)] unfolding w2 n .
  have loop: "spacing_loop valid_bits valid_bits_offset (wrap_int32 (num_values - 1))
                num_values b = Some b" if "?n \<le> length b" for b
    unfolding spacing_loop_moves moves using that by (rule apply_moves_identity)
  have ret: "DecodeSpaced Decode_virtual d buffer num_values 0 valid_bits valid_bits_offset
               = Return num_values s"
    if r: "Decode_virtual d buffer num_values = Return num_values s" for s
  proof -
    obtain b' d' where s: "s = (b', d')" by (cases s)
    with r assms(4) have "?n \<le> length b'" by blast
    from loop [OF this] r s show ?thesis
      unfolding DecodeSpaced_def Let_def w1 by simp
  qed
  have "state_after (DecodeSpaced Decode_virtual d buffer num_values 0
                        valid_bits valid_bits_offset)
           = state_after (Decode_virtual d buffer num_values)"
  proof (cases "Decode_virtual d buffer num_values")
    case (Return r s)
    show ?thesis
    proof (cases "r = num_values")
      case True
      with Return ret show ?thesis by simp
    next
      case False
      obtain b' d' where s: "s = (b', d')" by (cases s)
      with False Return show ?thesis
        unfolding DecodeSpaced_def Let_def w1 by (simp add: state_after_def)
    qed
  next
    case (Throw e s)
    then show ?thesis unfolding DecodeSpaced_def Let_def w1 by simp
  next
    case Undefined
    then show ?thesis unfolding DecodeSpaced_def Let_def w1 by simp
  qed
  with ret moves show ?thesis by blast
qed

text \<open>
  Three slots, all non-null, and the example page.
\<close>

theorem DecodeSpaced_without_nulls_example:
  "DecodeDense example_decoder [0, 0, 0] 3 =
     Return 3 ([10, 20, 30],
       \<lparr>descr_fld = (), encoding_fld = ''PLAIN'', num_values_fld = 0, page = []\<rparr>)
   \<and> DecodeSpaced DecodeDense example_decoder [0, 0, 0] 3 0 (bits_of [True, True, True]) 0 =
     Return 3 ([10, 20, 30],
       \<lparr>descr_fld = (), encoding_fld = ''PLAIN'', num_values_fld = 0, page = []\<rparr>)
   \<and> spacing_moves (bits_of [True, True, True]) 0 (wrap_int32 (3 - 1)) 3
       = [(2, 2), (1, 1), (0, 0)]"
proof -
  have r: "DecodeDense example_decoder [0, 0, 0] 3 =
     Return 3 ([10, 20, 30],
       \<lparr>descr_fld = (), encoding_fld = ''PLAIN'', num_values_fld = 0, page = []\<rparr>)"
    by (simp add: example_decoder_eq DecodeDense_def)
  have c: "(0::int) \<le> 3" "(3::int) \<le> INT_MAX" by (simp_all add: INT_MAX_def)
  have v: "\<forall>i < nat 3. slot_valid (bits_of [True, True, True]) 0 i"
    by (auto simp: slot_valid_def GetBit_def wrap_int64_def bits_of_def nth_Cons
          split: nat.splits)
  have l: "\<forall>buffer' d'. DecodeDense example_decoder [0, 0, 0] 3 = Return 3 (buffer', d')
           \<longrightarrow> nat 3 \<le> length buffer'"
    unfolding r by auto
  note t = DecodeSpaced_without_nulls
         [where Decode_virtual = DecodeDense and d = example_decoder
            and buffer = "[0, 0, 0]" and num_values = 3
            and valid_bits = "bits_of [True, True, True]" and valid_bits_offset = 0,
          OF c v l]
  from t r have "DecodeSpaced DecodeDense example_decoder [0, 0, 0] 3 0
       (bits_of [True, True, True]) 0 =
     Return 3 ([10, 20, 30],
       \<lparr>descr_fld = (), encoding_fld = ''PLAIN'', num_values_fld = 0, page = []\<rparr>)"
    by blast
  moreover from t have "spacing_moves (bits_of [True, True, True]) 0 (wrap_int32 (3 - 1)) 3
       = map (\<lambda>i. (int i, int i)) (rev [0..<nat 3])"
    by blast
  then have "spacing_moves (bits_of [True, True, True]) 0 (wrap_int32 (3 - 1)) 3
       = [(2, 2), (1, 1), (0, 0)]"
    by (simp add: eval_nat_numeral)
  ultimately show ?thesis using r by blast
qed

subsection \<open>C8: the default Decode\<close>

text \<open>
  C8.  The \<open>Decode\<close> of the base class throws the unsupported-operation exception for
  every decoder, buffer and count, and leaves the buffer and the decoder as they are.
\<close>

theorem Decode_unsupported:
  "Decode d buffer max_values = Throw unsupported_operation (buffer, d)"
  by (simp add: Decode_def)

subsection \<open>C9: the encoding tag\<close>

text \<open>
  C9.  Let a decoder be constructed with the encoding tag \<open>tag\<close>, whatever members its
  class adds to those of the base class, and let the implementations of \<open>SetData\<close> and
  \<open>Decode\<close> of its class respect the \<open>const\<close> of \<open>encoding_\<close>.  After any sequence of
  \<open>SetData\<close>, \<open>Decode\<close> and \<open>DecodeSpaced\<close> calls, thrown exceptions included,
  \<open>encoding\<close> returns \<open>tag\<close>.
\<close>

theorem encoding_invariant:
  assumes "keeps_encoding SetData_virtual Decode_virtual"
    and "run_calls SetData_virtual Decode_virtual calls
           (Decoder.extend (Decoder descr tag) members) = Some d'"
  shows "encoding d' = tag"
proof -
  from run_calls_encoding [OF assms]
  have "encoding_fld d' = encoding_fld (Decoder.extend (Decoder descr tag) members)" .
  then show ?thesis by (simp add: encoding_def Decoder_def Decoder.defs)
qed

text \<open>
  Two pages and three decode calls, the last of which throws, on the concrete decoder.
\<close>

theorem encoding_invariant_example:
  "\<exists>d'. run_calls Load DecodeDense
           [SetData_call 3 [10, 20, 30 :: int],
            DecodeSpaced_call [0, 0, 0, 0, 0] 5 2 example_bits 0,
            SetData_call 2 [40, 50],
            Decode_call [0] 1,
            DecodeSpaced_call [0, 0, 0] 3 0 example_bits 0]
           (Page_Decoder () ''PLAIN'') = Some d'
      \<and> encoding d' = ''PLAIN''"
proof -
  have "run_calls Load DecodeDense
           [SetData_call 3 [10, 20, 30 :: int],
            DecodeSpaced_call [0, 0, 0, 0, 0] 5 2 example_bits 0,
            SetData_call 2 [40, 50],
            Decode_call [0] 1,
            DecodeSpaced_call [0, 0, 0] 3 0 example_bits 0]
           (Decoder.extend (Decoder () ''PLAIN'') (Page_Decoder.fields []))
        = Some \<lparr>descr_fld = (), encoding_fld = ''PLAIN'', num_values_fld = 0, page = [] :: int list\<rparr>"
    by (simp add: Load_def DecodeDense_def DecodeSpaced_def after_call_def state_after_def
          Decoder_def Decoder.defs Page_Decoder.defs spacing_loop.simps GetBit_def
          wrap_int64_def wrap_int32_def example_bits_def bits_of_def)
  from this encoding_invariant [OF keeps_encoding_Page_Decoder this]
  show ?thesis unfolding Page_Decoder_def by blast
qed

subsection \<open>C10: DecodeSpaced over the default Decode\<close>

text \<open>
  C10.  \<open>DecodeSpaced\<close> calls \<open>Decode\<close> before it looks at anything else.  On a
  decoder whose \<open>Decode\<close> is the default of the base class it therefore throws the
  unsupported-operation exception for every input, also when
  \<open>num_values - null_count\<close> is 0, and the buffer and the decoder are unchanged.
\<close>

theorem DecodeSpaced_base_unsupported:
  "DecodeSpaced Decode d buffer num_values null_count valid_bits valid_bits_offset
     = Throw unsupported_operation (buffer, d)"
  by (simp add: DecodeSpaced_def Decode_def)

text \<open>
  An all-null request of two slots: no value is asked for, and the call still throws.
\<close>

theorem DecodeSpaced_base_unsupported_example:
  "DecodeSpaced Decode (Decoder () ''PLAIN'') [0, 0 :: int] 2 2 (bits_of [False, False]) 0
     = Throw unsupported_operation ([0, 0], Decoder () ''PLAIN'')
   \<and> null_slots (bits_of [False, False]) 0 2 = 2"
proof -
  have "null_slots (bits_of [False, False]) 0 2 = 2"
    by (simp add: null_slots_def eval_nat_numeral slot_valid_def GetBit_def wrap_int64_def
          bits_of_def)
  with DecodeSpaced_base_unsupported [of "Decoder () ''PLAIN''" "[0, 0 :: int]" 2 2
         "bits_of [False, False]" 0]
  show ?thesis by blast
qed

end
